theory Spec2Isabelle
  imports Main "HOL-Library.AList"
begin

section \<open>Data model\<close>

text \<open>
  The development follows the dev server of the repository (the variant with the
  reverse-dependency traversal).  Its data is the bundler's metafile, extended by the
  server with a \<open>parents\<close> set per input, and one record of process-wide state.

  An entry of \<open>imports\<close> of a metafile input: the resolved path, the import kind,
  the optional \<open>external\<close> flag and the optional specifier as written in the source.
\<close>

record import_entry =
  path :: string
  kind :: string
  external :: "bool option"
  original :: "string option"

text \<open>
  One input of the metafile.  \<open>parents\<close> is the optional JavaScript \<open>Set\<close>: a list
  in insertion order without repetitions when present, \<open>None\<close> while the property is
  missing.  The field \<open>imports\<close> of the source is \<open>imports_list\<close> here.
\<close>

record module_info =
  bytes :: nat
  parents :: "string list option"
  imports_list :: "import_entry list"
  format :: "string option"

text \<open>
  \<open>metafile.inputs\<close> is an object keyed by path.  It is an association list in the
  order of \<open>Object.entries\<close>; \<open>inputs[p]\<close> is \<open>map_of\<close> (own properties only).
  The \<open>outputs\<close> part of the metafile is never read by the server and is left out.
\<close>

type_synonym inputs = "(string \<times> module_info) list"

record ModuleMeta =
  inputs :: inputs

type_synonym client = nat

datatype build_context = BuildContext

text \<open>
  \<open>sharedState\<close>: the counter \<open>_idx\<close> (here \<open>idx\<close>), the build context (here
  \<open>context_ref\<close>), the bundle (here \<open>bundle_bytes\<close>), the module metadata and the connected sockets.
\<close>

record sharedState =
  idx :: nat
  context_ref :: "build_context option"
  bundle_bytes :: "string option"
  moduleMeta :: "ModuleMeta option"
  clients :: "client list"

datatype js_error =
    TypeError string
  | RangeError string
  | TransformError string
  | BuildFailure

text \<open>The object handed to \<open>JSON.stringify\<close> before it goes to a socket.\<close>

datatype message =
    Update (body: string) (id_field: string)
  | Reload

text \<open>
  What the server does to the outside: console output (the text of the first argument),
  the dump of the metafile, a call of the syntax transform with the file path, the
  \<open>runtimeModule\<close> flag and the alias map, a socket send, and a call of
  \<open>context.rebuild()\<close>.
\<close>

datatype effect =
    ConsoleLog string
  | ConsoleWarn string
  | ConsoleError string
  | ConsoleLogMeta ModuleMeta
  | SwcTransform string bool "(string \<times> string) list"
  | Send client message
  | RebuildCall

text \<open>
  The collaborators outside the repository: the project root, the syntax transform
  applied to the current contents of a file (it fails when the file cannot be read or
  parsed), and the bundler, given by the files it loads through \<open>onLoad\<close> during a
  build and by its result (metafile and first output file) when bundling succeeds.
\<close>

record env =
  ROOT :: string
  transform :: "string \<Rightarrow> bool \<Rightarrow> (string \<times> string) list \<Rightarrow> js_error + string"
  rebuild_loads :: "string list"
  rebuild_result :: "(ModuleMeta \<times> string) option"

section \<open>Strings\<close>

text \<open>\<open>String.prototype.replace\<close> with a string pattern: the first occurrence only.\<close>

fun replace_first :: "string \<Rightarrow> string \<Rightarrow> string \<Rightarrow> string" where
  "replace_first pat rep [] = (if pat = [] then rep else [])"
| "replace_first pat rep (c # cs) =
     (if take (length pat) (c # cs) = pat then rep @ drop (length pat) (c # cs)
      else c # replace_first pat rep cs)"

definition stripRoot :: "string \<Rightarrow> string \<Rightarrow> string" where
  "stripRoot root file_path = drop 1 (replace_first root [] file_path)"

text \<open>
  \<open>path.join(ROOT, modulePath)\<close> for a root other than \<open>/\<close> and a module path that is
  already normalised, as the ids of the metafile are.
\<close>

definition path_join :: "string \<Rightarrow> string \<Rightarrow> string" where
  "path_join root modulePath = root @ ''/'' @ modulePath"

definition endsWith :: "string \<Rightarrow> string \<Rightarrow> bool" where
  "endsWith s suf = (length suf \<le> length s \<and> drop (length s - length suf) s = suf)"

definition hex_digit :: "nat \<Rightarrow> char" where
  "hex_digit d = (if d < 10 then char_of (48 + d) else char_of (87 + d))"

text \<open>\<open>JSON.stringify\<close> of a string: quotes, and escapes for quote, backslash, controls.\<close>

definition json_escape :: "char \<Rightarrow> string" where
  "json_escape c =
     (if c = CHR 0x22 then [CHR 0x5C, CHR 0x22]
      else if c = CHR 0x5C then [CHR 0x5C, CHR 0x5C]
      else if c = CHR 0x08 then [CHR 0x5C, CHR ''b'']
      else if c = CHR 0x09 then [CHR 0x5C, CHR ''t'']
      else if c = CHR 0x0A then [CHR 0x5C, CHR ''n'']
      else if c = CHR 0x0C then [CHR 0x5C, CHR ''f'']
      else if c = CHR 0x0D then [CHR 0x5C, CHR ''r'']
      else if of_char c < (32::nat) then
        [CHR 0x5C, CHR ''u'', CHR ''0'', CHR ''0'',
         hex_digit (of_char c div 16), hex_digit (of_char c mod 16)]
      else [c])"

definition JSON_stringify :: "string \<Rightarrow> string" where
  "JSON_stringify s = [CHR 0x22] @ concat (map json_escape s) @ [CHR 0x22]"

text \<open>The decimal text of the counter, as a template literal prints it.\<close>

fun string_of_nat :: "nat \<Rightarrow> string" where
  "string_of_nat n =
     (if n < 10 then [char_of (48 + n)]
      else string_of_nat (n div 10) @ [char_of (48 + n mod 10)])"

declare string_of_nat.simps [simp del]

section \<open>The module transformer\<close>

text \<open>
  The template literal \<open>code\<close> of \<open>transformCode\<close>, as a function of the three values
  it interpolates.
\<close>

definition moduleCode :: "string \<Rightarrow> string \<Rightarrow> string \<Rightarrow> string" where
  "moduleCode contextVariableName filename result_code =
     [CHR 0x0A] @ ''  var '' @ contextVariableName @ '' = window.__hot.register(''
       @ JSON_stringify filename @ '');'' @ [CHR 0x0A]
     @ [CHR 0x0A]
     @ ''  '' @ result_code @ [CHR 0x0A]
     @ ''  '' @ [CHR 0x0A]
     @ ''  '' @ contextVariableName @ ''.accept(({ body }) => {'' @ [CHR 0x0A]
     @ ''    console.log('accepted!', '' @ JSON_stringify filename @ '');'' @ [CHR 0x0A]
     @ ''    console.log(body);'' @ [CHR 0x0A]
     @ ''  });'' @ [CHR 0x0A]
     @ ''  '' @ contextVariableName @ ''.dispose(() => {'' @ [CHR 0x0A]
     @ ''    console.log('disposed!', '' @ JSON_stringify filename @ '');'' @ [CHR 0x0A]
     @ ''  });'' @ [CHR 0x0A]
     @ ''  ''"

text \<open>The template literal returned when \<open>runtimeModule\<close> holds.\<close>

definition try_prefix :: string where
  "try_prefix = ''try {'' @ [CHR 0x0A] @ ''    ''"

definition catch_suffix :: string where
  "catch_suffix =
     [CHR 0x0A] @ ''  } catch(error) {'' @ [CHR 0x0A]
     @ ''    alert('HMR Failed');'' @ [CHR 0x0A]
     @ ''    window.location.reload();'' @ [CHR 0x0A]
     @ ''  }''"

definition guardedCode :: "string \<Rightarrow> string" where
  "guardedCode code = try_prefix @ code @ catch_suffix"

text \<open>
  \<open>transformCode\<close>: the counter advances only after the syntax transform succeeded; a
  failure of reading or transforming the file rejects the promise.
\<close>

definition transformCode ::
  "env \<Rightarrow> sharedState \<Rightarrow> string \<Rightarrow> bool \<Rightarrow> (string \<times> string) list
     \<Rightarrow> (js_error + string) \<times> sharedState \<times> effect list" where
  "transformCode env st file_path runtimeModule importPaths =
     (let filename = stripRoot (ROOT env) file_path;
          fx = [SwcTransform file_path runtimeModule importPaths]
      in case transform env file_path runtimeModule importPaths of
           Inl err \<Rightarrow> (Inl err, st, fx)
         | Inr result_code \<Rightarrow>
             (let contextVariableName = ''__hmr'' @ string_of_nat (idx st);
                  st' = st\<lparr>idx := idx st + 1\<rparr>;
                  code = moduleCode contextVariableName filename result_code
              in (Inr (if runtimeModule then guardedCode code else code), st', fx)))"

section \<open>Graph construction (\<open>build.onEnd\<close>)\<close>

text \<open>\<open>Set.prototype.add\<close> on the insertion-ordered list.\<close>

definition set_add :: "string \<Rightarrow> string list \<Rightarrow> string list" where
  "set_add x xs = (if x \<in> set xs then xs else xs @ [x])"

text \<open>
  The body of the inner \<open>forEach\<close>: one import of the module \<open>filename\<close>.  A target that
  is missing from the metafile is reported and skipped; otherwise the target's
  \<open>parents\<close> set is created when missing and \<open>filename\<close> is added to it.
\<close>

definition onEnd_import ::
  "string \<Rightarrow> import_entry \<Rightarrow> inputs \<times> effect list \<Rightarrow> inputs \<times> effect list" where
  "onEnd_import filename imp acc =
     (case acc of (inp, fx) \<Rightarrow>
       (case map_of inp (path imp) of
          None \<Rightarrow> (inp, fx @ [ConsoleWarn (path imp @ '' is not exist in metafile'')])
        | Some target \<Rightarrow>
            (let ps = (case parents target of None \<Rightarrow> [] | Some ps \<Rightarrow> ps);
                 target' = target\<lparr>parents := Some (set_add filename ps)\<rparr>
             in (AList.update (path imp) target' inp,
                 fx @ [ConsoleLog (''parent '' @ filename @ '', child: '' @ path imp)]))))"

text \<open>
  The two nested loops over \<open>Object.entries(metafile.inputs)\<close> and over each module's
  imports.  The entries are those the object had when the loop started; the loop body
  only changes \<open>parents\<close>.
\<close>

definition onEnd_parents :: "inputs \<Rightarrow> inputs \<times> effect list" where
  "onEnd_parents inp0 =
     foldl (\<lambda>acc entry. foldl (\<lambda>acc' imp. onEnd_import (fst entry) imp acc')
                            acc (imports_list (snd entry)))
       (inp0, []) inp0"

definition onEnd :: "ModuleMeta \<times> string \<Rightarrow> sharedState \<Rightarrow> sharedState \<times> effect list" where
  "onEnd result st =
     (case result of (metafile, contents) \<Rightarrow>
       (case onEnd_parents (inputs metafile) of (inp', fx) \<Rightarrow>
         (let metafile' = metafile\<lparr>inputs := inp'\<rparr>
          in (st\<lparr>bundle_bytes := Some contents, moduleMeta := Some metafile'\<rparr>,
              [ConsoleLog ''esbuild.onEnd''] @ fx @ [ConsoleLogMeta metafile']))))"

section \<open>The invalidation resolver\<close>

text \<open>
  \<open>forEach\<close> over the parents with the reassigned accumulator \<open>dependencies\<close>; a call
  that does not return makes the loop not return.
\<close>

fun forEach :: "('a \<Rightarrow> 's \<Rightarrow> 's option) \<Rightarrow> 'a list \<Rightarrow> 's \<Rightarrow> 's option" where
  "forEach f [] s = Some s"
| "forEach f (x # xs) s = Option.bind (f x s) (forEach f xs)"

lemma forEach_mono [partial_function_mono]:
  assumes "\<And>x s. mono_option (\<lambda>g. F g x s)"
  shows "mono_option (\<lambda>g. forEach (F g) xs s)"
proof (induction xs arbitrary: s)
  case Nil
  show ?case by (simp add: option.const_mono)
next
  case (Cons x xs)
  show ?case
    unfolding forEach.simps
    by (rule bind_mono) (rule assms, rule Cons.IH)
qed

text \<open>
  \<open>getReverseDependencies\<close>.  The recursion has no visited set, so it need not end:
  \<open>None\<close> is the call that never returns (in the runtime, the call stack runs out).
\<close>

partial_function (option) getReverseDependencies ::
  "inputs \<Rightarrow> string \<Rightarrow> string list \<Rightarrow> string list option" where
  "getReverseDependencies inp targetModule dependencies =
     (case map_of inp targetModule of
        None \<Rightarrow> Some dependencies
      | Some info \<Rightarrow>
          (case parents info of
             None \<Rightarrow> Some dependencies
           | Some ps \<Rightarrow>
               forEach (\<lambda>parentModule deps.
                   getReverseDependencies inp parentModule (deps @ [parentModule]))
                 ps dependencies))"

declare getReverseDependencies.simps [code]

text \<open>The list \<open>reverseDependencies\<close>: the changed id, then the traversal's result.\<close>

definition reverseDependencies :: "inputs \<Rightarrow> string \<Rightarrow> string list option" where
  "reverseDependencies inp strippedPath =
     map_option (\<lambda>deps. strippedPath # deps) (getReverseDependencies inp strippedPath [])"

section \<open>The update broadcaster\<close>

definition sendToClients :: "sharedState \<Rightarrow> message \<Rightarrow> effect list" where
  "sendToClients st msg = map (\<lambda>socket. Send socket msg) (clients st)"

text \<open>
  \<open>getModule\<close> on the metadata in force.  The warning interpolates the imported
  \<open>path\<close> module, not the module path, hence its fixed text.
\<close>

definition getModule :: "ModuleMeta \<Rightarrow> string \<Rightarrow> module_info option \<times> effect list" where
  "getModule mm modulePath =
     (case map_of (inputs mm) modulePath of
        None \<Rightarrow> (None, [ConsoleWarn ''unable to get meta data of [object Object]''])
      | Some currentFile \<Rightarrow> (Some currentFile, []))"

text \<open>
  \<open>getImportPaths\<close>: the object built by the \<open>reduce\<close>, keyed by the specifier as
  written (the text \<open>undefined\<close> when the import has none), or the empty object when
  the module is unknown.
\<close>

definition import_key :: "import_entry \<Rightarrow> string" where
  "import_key imp = (case original imp of None \<Rightarrow> ''undefined'' | Some s \<Rightarrow> s)"

definition getImportPaths ::
  "ModuleMeta \<Rightarrow> string \<Rightarrow> (string \<times> string) list \<times> effect list" where
  "getImportPaths mm modulePath =
     (case getModule mm modulePath of
        (None, fx) \<Rightarrow> ([], fx)
      | (Some currentFile, fx) \<Rightarrow>
          (foldl (\<lambda>prev imp. AList.update (import_key imp) (path imp) prev)
             [] (imports_list currentFile), fx))"

text \<open>
  The promise chain built by \<open>reduce\<close>: one step per module of the list, each run after
  the one before it has sent its message.  A rejected step skips the rest; the result
  carries the rejection for the \<open>catch\<close>.
\<close>

fun update_chain ::
  "env \<Rightarrow> string \<Rightarrow> string list \<Rightarrow> sharedState
     \<Rightarrow> js_error option \<times> sharedState \<times> effect list" where
  "update_chain env strippedPath [] st = (None, st, [])"
| "update_chain env strippedPath (modulePath # rest) st =
     (case moduleMeta st of
        None \<Rightarrow> (Some (TypeError ''Cannot read properties of null (reading 'inputs')''), st, [])
      | Some mm \<Rightarrow>
          (case getImportPaths mm modulePath of (importPaths, fx0) \<Rightarrow>
            (case transformCode env st (path_join (ROOT env) modulePath) True importPaths of
               (Inl err, st1, fx1) \<Rightarrow> (Some err, st1, fx0 @ fx1)
             | (Inr code, st1, fx1) \<Rightarrow>
                 (case update_chain env strippedPath rest st1 of (r, st2, fx3) \<Rightarrow>
                   (r, st2,
                    fx0 @ fx1 @ sendToClients st1 (Update code strippedPath) @ fx3)))))"

declare update_chain.simps(2) [simp del]

text \<open>
  The bundler's build as far as the server takes part in it: \<open>onStart\<close>, one \<open>onLoad\<close>
  per loaded file (a \<open>transformCode\<close> without the hot-update flag and with the default
  alias map), and \<open>onEnd\<close>.  A failed build rejects; its \<open>onEnd\<close> stops after the first
  console line because there is no metafile.
\<close>

fun onLoad_all ::
  "env \<Rightarrow> string list \<Rightarrow> sharedState \<Rightarrow> bool \<times> sharedState \<times> effect list" where
  "onLoad_all env [] st = (True, st, [])"
| "onLoad_all env (p # ps) st =
     (case transformCode env st p False [] of (res, st1, fx1) \<Rightarrow>
       (case onLoad_all env ps st1 of (ok, st2, fx2) \<Rightarrow>
         ((case res of Inl err \<Rightarrow> False | Inr code \<Rightarrow> ok), st2, [ConsoleLog ''esbuild.onLoad''] @ fx1 @ fx2)))"

definition rebuild :: "env \<Rightarrow> sharedState \<Rightarrow> js_error option \<times> sharedState \<times> effect list" where
  "rebuild env st =
     (case onLoad_all env (rebuild_loads env) st of (ok, st1, fx1) \<Rightarrow>
       (let fx0 = [RebuildCall, ConsoleLog ''esbuild.onStart''] in
        case (if ok then rebuild_result env else None) of
          None \<Rightarrow> (Some BuildFailure, st1, fx0 @ fx1 @ [ConsoleLog ''esbuild.onEnd''])
        | Some result \<Rightarrow>
            (case onEnd result st1 of (st2, fx2) \<Rightarrow> (None, st2, fx0 @ fx1 @ fx2))))"

text \<open>
  The \<open>catch\<close> of the chain.  \<open>sharedState.context\<close> is dereferenced first; the reload is
  sent only after a rebuild that completed.
\<close>

definition on_transform_error ::
  "env \<Rightarrow> sharedState \<Rightarrow> js_error \<Rightarrow> js_error option \<times> sharedState \<times> effect list" where
  "on_transform_error env st err =
     (let fx0 = [ConsoleError ''[HMR] Transform error''] in
      case context_ref st of
        None \<Rightarrow>
          (Some (TypeError ''Cannot read properties of null (reading 'rebuild')''), st, fx0)
      | Some ctx \<Rightarrow>
          (case rebuild env st of
             (Some failure, st1, fx1) \<Rightarrow> (Some failure, st1, fx0 @ fx1)
           | (None, st1, fx1) \<Rightarrow> (None, st1, fx0 @ fx1 @ sendToClients st1 Reload)))"

text \<open>
  The watcher's handler for one event, run to completion.  The result is the error that
  escapes (thrown by the handler or left as an unhandled rejection), the state and the
  effects in order.  A traversal that does not return ends the handler with the
  runtime's stack overflow.  Events are taken one at a time: sockets that connect and
  events that arrive while a chain is running are not interleaved with it.
\<close>

definition handler ::
  "env \<Rightarrow> sharedState \<Rightarrow> string \<Rightarrow> string \<Rightarrow> js_error option \<times> sharedState \<times> effect list" where
  "handler env st event changedFilePath =
     (if event \<noteq> ''change'' \<or> \<not> endsWith changedFilePath ''.ts'' then (None, st, [])
      else
        (let fx0 = [ConsoleLog (''file changed: '' @ event)] in
         if length (clients st) = 0 then (None, st, fx0)
         else
           (let fx1 = fx0 @ [ConsoleLog ''[HMR] Send update message to client''];
                strippedPath = stripRoot (ROOT env) changedFilePath
            in case moduleMeta st of
                 None \<Rightarrow>
                   (Some (TypeError ''Cannot read properties of null (reading 'inputs')''),
                    st, fx1)
               | Some mm \<Rightarrow>
                   (case reverseDependencies (inputs mm) strippedPath of
                      None \<Rightarrow>
                        (Some (RangeError ''Maximum call stack size exceeded''), st, fx1)
                    | Some deps \<Rightarrow>
                        (let fx2 = fx1 @ [ConsoleLog ''reverse dependencies''] in
                         case update_chain env strippedPath deps st of
                           (None, st1, fx3) \<Rightarrow> (None, st1, fx2 @ fx3)
                         | (Some err, st1, fx3) \<Rightarrow>
                             (case on_transform_error env st1 err of (r, st2, fx4) \<Rightarrow>
                               (r, st2, fx2 @ fx3 @ fx4)))))))"

text \<open>The process: the initial state, a socket upgrade on \<open>/hot\<close>, and what can follow.\<close>

definition initial_state :: sharedState where
  "initial_state =
     \<lparr>idx = 0, context_ref = None, bundle_bytes = None, moduleMeta = None, clients = []\<rparr>"

definition connect :: "client \<Rightarrow> sharedState \<Rightarrow> sharedState" where
  "connect c st = st\<lparr>clients := clients st @ [c]\<rparr>"

inductive reachable :: "sharedState \<Rightarrow> bool" where
  init: "reachable initial_state"
| build: "reachable st \<Longrightarrow> rebuild env st = (r, st', fx) \<Longrightarrow> reachable st'"
| upgrade: "reachable st \<Longrightarrow> reachable (connect c st)"
| event: "reachable st \<Longrightarrow> handler env st ev p = (r, st', fx) \<Longrightarrow> reachable st'"

section \<open>Notions used in the statements\<close>

text \<open>The parents of a module as the traversal reads them, and the edges they form.\<close>

definition parents_of :: "inputs \<Rightarrow> string \<Rightarrow> string list" where
  "parents_of inp t =
     (case map_of inp t of
        None \<Rightarrow> []
      | Some info \<Rightarrow> (case parents info of None \<Rightarrow> [] | Some ps \<Rightarrow> ps))"

definition parent_edges :: "inputs \<Rightarrow> (string \<times> string) set" where
  "parent_edges inp = {(t, p). p \<in> set (parents_of inp t)}"

text \<open>Some cycle of parents edges can be reached from \<open>t\<close>.\<close>

definition cycle_reachable :: "inputs \<Rightarrow> string \<Rightarrow> bool" where
  "cycle_reachable inp t =
     (\<exists>a. (t, a) \<in> (parent_edges inp)\<^sup>* \<and> (a, a) \<in> (parent_edges inp)\<^sup>+)"

text \<open>The messages among the effects: all sends, in order.\<close>

fun sent_of :: "effect \<Rightarrow> (client \<times> message) list" where
  "sent_of (Send c m) = [(c, m)]"
| "sent_of _ = []"

definition sent :: "effect list \<Rightarrow> (client \<times> message) list" where
  "sent fx = concat (map sent_of fx)"


text \<open>
  The syntax transform accepts module \<open>m\<close> when called as the chain calls it: on the
  module's file, with the hot-update flag and the module's alias map.
\<close>

definition transform_ok :: "env \<Rightarrow> ModuleMeta \<Rightarrow> string \<Rightarrow> bool" where
  "transform_ok env mm m =
     (case transform env (path_join (ROOT env) m) True (fst (getImportPaths mm m)) of
        Inl err \<Rightarrow> False
      | Inr result_code \<Rightarrow> True)"

text \<open>
  The \<open>update\<close> message that the chain builds for module \<open>m\<close> while the counter is \<open>n\<close>
  and \<open>strippedPath\<close> is the changed module.
\<close>

definition hot_update :: "env \<Rightarrow> ModuleMeta \<Rightarrow> string \<Rightarrow> nat \<times> string \<Rightarrow> message" where
  "hot_update env mm strippedPath nm =
     (case nm of (n, m) \<Rightarrow>
       Update
         (case transform env (path_join (ROOT env) m) True (fst (getImportPaths mm m)) of
            Inl err \<Rightarrow> []
          | Inr result_code \<Rightarrow>
              guardedCode (moduleCode (''__hmr'' @ string_of_nat n) m result_code))
         strippedPath)"

text \<open>Each message in order, each to every socket in order.\<close>

definition to_all :: "client list \<Rightarrow> message list \<Rightarrow> (client \<times> message) list" where
  "to_all cs ms = concat (map (\<lambda>m. map (\<lambda>c. (c, m)) cs) ms)"

text \<open>A metafile input as the bundler delivers it: no \<open>parents\<close> yet.\<close>

definition input_of :: "(string \<times> string) list \<Rightarrow> module_info" where
  "input_of imps =
     \<lparr>bytes = 0, parents = None,
      imports_list = map (\<lambda>(orig, p). \<lparr>path = p, kind = ''import-statement'',
                                         external = None, original = Some orig\<rparr>) imps,
      format = Some ''esm''\<rparr>"

text \<open>
  What graph construction must leave alone: every entry with its key, position and all
  fields but \<open>parents\<close>.
\<close>

definition forward :: "inputs \<Rightarrow> inputs" where
  "forward inp = map (\<lambda>entry. (fst entry, (snd entry)\<lparr>parents := None\<rparr>)) inp"

text \<open>The pairs (importing module, import) in the order in which the loops visit them.\<close>

definition import_tasks :: "inputs \<Rightarrow> (string \<times> import_entry) list" where
  "import_tasks inp =
     concat (map (\<lambda>entry. map (\<lambda>imp. (fst entry, imp)) (imports_list (snd entry))) inp)"

text \<open>The modules with an import that resolves to \<open>B\<close>.\<close>

definition importers :: "inputs \<Rightarrow> string \<Rightarrow> string set" where
  "importers inp B =
     {A. \<exists>infoA imp. (A, infoA) \<in> set inp \<and> imp \<in> set (imports_list infoA) \<and> path imp = B}"

definition run_tasks ::
  "(string \<times> import_entry) list \<Rightarrow> inputs \<times> effect list \<Rightarrow> inputs \<times> effect list" where
  "run_tasks ts acc = foldl (\<lambda>acc' task. onEnd_import (fst task) (snd task) acc') acc ts"

text \<open>
  Three metafiles as the bundler delivers them: a chain (\<open>a\<close> imports \<open>b\<close>, \<open>b\<close> imports
  \<open>c\<close>), a diamond (\<open>a\<close> imports \<open>b\<close> and \<open>c\<close>, which both import \<open>d\<close>) and two
  modules that import each other.
\<close>

definition chain_meta :: inputs where
  "chain_meta =
     [(''client/a.ts'', input_of [(''./b'', ''client/b.ts'')]),
      (''client/b.ts'', input_of [(''./c'', ''client/c.ts'')]),
      (''client/c.ts'', input_of [])]"


definition cyclic_meta :: inputs where
  "cyclic_meta =
     [(''client/a.ts'', input_of [(''./b'', ''client/b.ts'')]),
      (''client/b.ts'', input_of [(''./a'', ''client/a.ts'')])]"



text \<open>
  Two settings of the collaborators with root \<open>/app\<close>: one in which every file
  transforms, one in which \<open>client/b.ts\<close> has a syntax error; and the state of the
  server after the first build of the chain and one socket upgrade.
\<close>

definition ok_env :: env where
  "ok_env =
     \<lparr>ROOT = ''/app'',
      transform = (\<lambda>file_path runtimeModule importPaths. Inr (''/* '' @ file_path @ '' */'')),
      rebuild_loads = [''/app/client/a.ts'', ''/app/client/b.ts'', ''/app/client/c.ts''],
      rebuild_result = Some (\<lparr>inputs = chain_meta\<rparr>, ''bundle'')\<rparr>"


definition served_state :: sharedState where
  "served_state = connect 7 (fst (snd (rebuild ok_env initial_state)))"

section \<open>The traversal: what it collects and when it returns\<close>

lemma getReverseDependencies_unfold:
  "getReverseDependencies inp t deps =
     forEach (\<lambda>p d. getReverseDependencies inp p (d @ [p])) (parents_of inp t) deps"
  by (subst getReverseDependencies.simps)
     (simp add: parents_of_def split: option.splits)

lemma forEach_Some_member:
  "forEach f ps s = Some r \<Longrightarrow> p \<in> set ps \<Longrightarrow> \<exists>d d'. f p d = Some d'"
proof (induction ps arbitrary: s)
  case Nil
  then show ?case by simp
next
  case (Cons q qs)
  from Cons.prems(1) obtain s' where q: "f q s = Some s'" and rest: "forEach f qs s' = Some r"
    by (auto simp: bind_eq_Some_conv)
  show ?case
  proof (cases "p = q")
    case True
    with q show ?thesis by blast
  next
    case False
    with Cons.prems(2) have "p \<in> set qs" by simp
    with Cons.IH rest show ?thesis by blast
  qed
qed

lemma forEach_total:
  "(\<And>p d. p \<in> set ps \<Longrightarrow> \<exists>d'. f p d = Some d') \<Longrightarrow> \<exists>r. forEach f ps s = Some r"
proof (induction ps arbitrary: s)
  case Nil
  show ?case by simp
next
  case (Cons q qs)
  from Cons.prems obtain s' where q: "f q s = Some s'" by (meson list.set_intros(1))
  from Cons.IH Cons.prems obtain r where "forEach f qs s' = Some r"
    by (meson list.set_intros(2))
  with q show ?case by simp
qed




lemma cycle_reachable_step:
  assumes "cycle_reachable inp t"
  shows "\<exists>p \<in> set (parents_of inp t). cycle_reachable inp p"
proof -
  from assms obtain a where ta: "(t, a) \<in> (parent_edges inp)\<^sup>*"
    and aa: "(a, a) \<in> (parent_edges inp)\<^sup>+"
    by (auto simp: cycle_reachable_def)
  from ta aa have "(t, a) \<in> (parent_edges inp)\<^sup>+"
    by (meson rtrancl_trancl_trancl)
  then obtain p where tp: "(t, p) \<in> parent_edges inp" and pa: "(p, a) \<in> (parent_edges inp)\<^sup>*"
    by (meson tranclD)
  from tp have "p \<in> set (parents_of inp t)" by (simp add: parent_edges_def)
  moreover from pa aa have "cycle_reachable inp p" by (auto simp: cycle_reachable_def)
  ultimately show ?thesis by blast
qed

lemma getReverseDependencies_no_cycle:
  assumes "getReverseDependencies inp t deps = Some r"
  shows "\<not> cycle_reachable inp t"
proof (rule getReverseDependencies.raw_induct
    [where P = "\<lambda>inp t deps r. \<not> cycle_reachable inp t", OF _ assms])
  fix grd :: "inputs \<Rightarrow> string \<Rightarrow> string list \<Rightarrow> string list option"
    and inp t deps r
  assume IH: "\<And>inp t deps r. grd inp t deps = Some r \<Longrightarrow> \<not> cycle_reachable inp t"
    and body: "(case map_of inp t of
        None \<Rightarrow> Some deps
      | Some info \<Rightarrow>
          (case parents info of
             None \<Rightarrow> Some deps
           | Some ps \<Rightarrow> forEach (\<lambda>p d. grd inp p (d @ [p])) ps deps)) = Some r"
  have run: "forEach (\<lambda>p d. grd inp p (d @ [p])) (parents_of inp t) deps = Some r"
    using body by (auto simp: parents_of_def split: option.splits)
  show "\<not> cycle_reachable inp t"
  proof
    assume "cycle_reachable inp t"
    then obtain p where p: "p \<in> set (parents_of inp t)" and c: "cycle_reachable inp p"
      using cycle_reachable_step by blast
    from forEach_Some_member [OF run p] obtain d d' where "grd inp p (d @ [p]) = Some d'"
      by blast
    from IH [OF this] c show False by simp
  qed
qed

lemma finite_parent_edges: "finite (parent_edges inp)"
proof -
  have "parent_edges inp \<subseteq> (\<Union>t \<in> fst ` set inp. {t} \<times> set (parents_of inp t))"
  proof
    fix e assume e: "e \<in> parent_edges inp"
    obtain t p where tp: "e = (t, p)" by (cases e)
    with e have p: "p \<in> set (parents_of inp t)" by (simp add: parent_edges_def)
    then have "map_of inp t \<noteq> None" by (cases "map_of inp t") (auto simp: parents_of_def)
    then have "t \<in> fst ` set inp" by (simp add: map_of_eq_None_iff)
    with p tp show "e \<in> (\<Union>t \<in> fst ` set inp. {t} \<times> set (parents_of inp t))" by auto
  qed
  moreover have "finite (\<Union>t \<in> fst ` set inp. {t} \<times> set (parents_of inp t))" by simp
  ultimately show ?thesis by (rule finite_subset)
qed

lemma getReverseDependencies_total:
  assumes "\<not> cycle_reachable inp t"
  shows "\<exists>r. getReverseDependencies inp t deps = Some r"
proof -
  define R where "R = {(p, t). (t, p) \<in> parent_edges inp \<and> \<not> cycle_reachable inp t}"
  have sub: "R \<subseteq> (parent_edges inp)\<inverse>" by (auto simp: R_def)
  have finR: "finite R" using sub finite_parent_edges [of inp] by (meson finite_converse finite_subset)
  have acy: "acyclic R"
  proof (rule acyclicI, rule allI, rule notI)
    fix x assume xx: "(x, x) \<in> R\<^sup>+"
    from xx sub have "(x, x) \<in> ((parent_edges inp)\<inverse>)\<^sup>+" by (meson trancl_mono)
    then have c: "(x, x) \<in> (parent_edges inp)\<^sup>+" by (simp add: trancl_converse)
    from xx obtain y where "(y, x) \<in> R" by (meson tranclE)
    then have "\<not> cycle_reachable inp x" by (simp add: R_def)
    with c show False by (auto simp: cycle_reachable_def)
  qed
  have "wf R" using finR acy by (rule finite_acyclic_wf)
  then have "\<not> cycle_reachable inp t \<longrightarrow> (\<forall>deps. \<exists>r. getReverseDependencies inp t deps = Some r)"
  proof (induction t rule: wf_induct_rule)
    case (less t)
    show ?case
    proof (intro impI allI)
      fix deps assume nc: "\<not> cycle_reachable inp t"
      have "\<exists>d'. getReverseDependencies inp p (d @ [p]) = Some d'"
        if p: "p \<in> set (parents_of inp t)" for p d
      proof -
        from p have e: "(t, p) \<in> parent_edges inp" by (simp add: parent_edges_def)
        with nc have "(p, t) \<in> R" by (simp add: R_def)
        moreover have "\<not> cycle_reachable inp p"
        proof
          assume "cycle_reachable inp p"
          with e have "cycle_reachable inp t"
            by (auto simp: cycle_reachable_def intro: converse_rtrancl_into_rtrancl)
          with nc show False by simp
        qed
        ultimately show ?thesis using less.IH by blast
      qed
      then have "\<exists>r. forEach (\<lambda>p d. getReverseDependencies inp p (d @ [p]))
                      (parents_of inp t) deps = Some r"
        by (rule forEach_total)
      then show "\<exists>r. getReverseDependencies inp t deps = Some r"
        by (subst getReverseDependencies_unfold)
    qed
  qed
  with assms show ?thesis by blast
qed





text \<open>
  C3 (as amended).  The traversal started from a module id returns exactly when no cycle
  of parents edges can be reached from that id; in particular it returns on every
  acyclic graph.
\<close>

theorem getReverseDependencies_returns_iff:
  "(\<exists>r. getReverseDependencies inp X deps = Some r) \<longleftrightarrow> \<not> cycle_reachable inp X"
  using getReverseDependencies_no_cycle getReverseDependencies_total by blast

theorem getReverseDependencies_returns_iff_witness:
  "getReverseDependencies (fst (onEnd_parents chain_meta)) ''client/c.ts'' []
     = Some [''client/b.ts'', ''client/a.ts'']
   \<and> \<not> cycle_reachable (fst (onEnd_parents chain_meta)) ''client/c.ts''"
proof -
  have h: "getReverseDependencies (fst (onEnd_parents chain_meta)) ''client/c.ts'' []
     = Some [''client/b.ts'', ''client/a.ts'']"
    by code_simp
  with getReverseDependencies_returns_iff
    [of "fst (onEnd_parents chain_meta)" "''client/c.ts''" "[]"]
  show ?thesis by simp
qed

lemma cyclic_parents:
  "parents_of (fst (onEnd_parents cyclic_meta)) ''client/a.ts'' = [''client/b.ts'']"
  "parents_of (fst (onEnd_parents cyclic_meta)) ''client/b.ts'' = [''client/a.ts'']"
  by code_simp+

text \<open>
  C3 as stated fails on two modules that import each other: the traversal from either of
  them never returns.
\<close>

theorem getReverseDependencies_cycle_counterexample:
  "getReverseDependencies (fst (onEnd_parents cyclic_meta)) ''client/a.ts'' [] = None"
proof -
  let ?E = "parent_edges (fst (onEnd_parents cyclic_meta))"
  have ab: "(''client/a.ts'', ''client/b.ts'') \<in> ?E"
    and ba: "(''client/b.ts'', ''client/a.ts'') \<in> ?E"
    by (simp_all add: parent_edges_def cyclic_parents)
  then have "(''client/a.ts'', ''client/a.ts'') \<in> ?E\<^sup>+" by (meson trancl.simps)
  then have "cycle_reachable (fst (onEnd_parents cyclic_meta)) ''client/a.ts''"
    by (auto simp: cycle_reachable_def)
  with getReverseDependencies_no_cycle show ?thesis
    by (cases "getReverseDependencies (fst (onEnd_parents cyclic_meta)) ''client/a.ts'' []") auto
qed

section \<open>Graph construction\<close>

lemma set_set_add: "set (set_add x xs) = insert x (set xs)"
  by (auto simp: set_add_def)

lemma forward_update:
  "map_of inp p = Some target \<Longrightarrow>
     forward (AList.update p (target\<lparr>parents := ps\<rparr>) inp) = forward inp"
  by (induction inp) (auto simp: forward_def)

lemma onEnd_import_forward:
  "forward (fst (onEnd_import f imp (inp, fx))) = forward inp"
  by (simp add: onEnd_import_def Let_def forward_update split: option.splits)

lemma forward_keys: "forward inp' = forward inp \<Longrightarrow> map fst inp' = map fst inp"
proof -
  assume "forward inp' = forward inp"
  then have "map fst (forward inp') = map fst (forward inp)" by simp
  then show ?thesis by (simp add: forward_def o_def)
qed

lemma forward_dom:
  "forward inp' = forward inp \<Longrightarrow> (map_of inp' k = None) = (map_of inp k = None)"
  by (drule forward_keys) (metis map_of_eq_None_iff set_map)

lemma onEnd_import_parents:
  "set (parents_of (fst (onEnd_import f imp (inp, fx))) B) =
     set (parents_of inp B) \<union> (if B = path imp \<and> map_of inp B \<noteq> None then {f} else {})"
  by (auto simp: onEnd_import_def Let_def parents_of_def update_conv' set_set_add
      split: option.splits)

lemma onEnd_import_log:
  "snd (onEnd_import f imp (inp, fx)) =
     fx @ [if map_of inp (path imp) = None
           then ConsoleWarn (path imp @ '' is not exist in metafile'')
           else ConsoleLog (''parent '' @ f @ '', child: '' @ path imp)]"
  by (simp add: onEnd_import_def Let_def split: option.splits)

lemma run_tasks_simps:
  "run_tasks [] acc = acc"
  "run_tasks (t # ts) acc = run_tasks ts (onEnd_import (fst t) (snd t) acc)"
  "run_tasks (ts @ us) acc = run_tasks us (run_tasks ts acc)"
  by (simp_all add: run_tasks_def)

lemma onEnd_parents_tasks: "onEnd_parents inp = run_tasks (import_tasks inp) (inp, [])"
proof -
  have inner: "foldl (\<lambda>acc' imp. onEnd_import k imp acc') acc imps =
      run_tasks (map (\<lambda>imp. (k, imp)) imps) acc" for k acc imps
    by (induction imps arbitrary: acc) (simp_all add: run_tasks_simps)
  have outer: "foldl (\<lambda>acc entry. foldl (\<lambda>acc' imp. onEnd_import (fst entry) imp acc')
                            acc (imports_list (snd entry))) acc es =
      run_tasks (import_tasks es) acc" for acc es
    by (induction es arbitrary: acc) (simp_all add: import_tasks_def run_tasks_simps inner)
  show ?thesis by (simp add: onEnd_parents_def outer)
qed


lemma run_tasks_parents:
  "set (parents_of (fst (run_tasks ts (inp, fx))) B) =
     set (parents_of inp B) \<union>
       {f. map_of inp B \<noteq> None \<and> (\<exists>imp. (f, imp) \<in> set ts \<and> path imp = B)}"
proof (induction ts arbitrary: inp fx)
  case Nil
  show ?case by (simp add: run_tasks_simps)
next
  case (Cons t ts)
  obtain inp1 fx1 where s: "onEnd_import (fst t) (snd t) (inp, fx) = (inp1, fx1)"
    by (cases "onEnd_import (fst t) (snd t) (inp, fx)")
  have fw: "forward inp1 = forward inp"
    using onEnd_import_forward [of "fst t" "snd t" inp fx] s by simp
  have dom: "(map_of inp1 B = None) = (map_of inp B = None)" by (rule forward_dom [OF fw])
  have p1: "set (parents_of inp1 B) =
     set (parents_of inp B) \<union> (if B = path (snd t) \<and> map_of inp B \<noteq> None then {fst t} else {})"
    using onEnd_import_parents [of "fst t" "snd t" inp fx B] s by simp
  have "set (parents_of (fst (run_tasks (t # ts) (inp, fx))) B) =
      set (parents_of inp1 B) \<union>
       {f. map_of inp1 B \<noteq> None \<and> (\<exists>imp. (f, imp) \<in> set ts \<and> path imp = B)}"
    using Cons.IH [of inp1 fx1] s by (simp add: run_tasks_simps)
  also have "\<dots> = set (parents_of inp B) \<union>
       {f. map_of inp B \<noteq> None \<and> (\<exists>imp. (f, imp) \<in> set (t # ts) \<and> path imp = B)}"
    unfolding p1 dom by (cases t) auto
  finally show ?case .
qed

lemma run_tasks_log:
  "snd (run_tasks ts (inp, fx)) =
     fx @ map (\<lambda>task. if map_of inp (path (snd task)) = None
                        then ConsoleWarn (path (snd task) @ '' is not exist in metafile'')
                        else ConsoleLog (''parent '' @ fst task @ '', child: '' @ path (snd task)))
            ts"
proof (induction ts arbitrary: inp fx)
  case Nil
  show ?case by (simp add: run_tasks_simps)
next
  case (Cons t ts)
  obtain inp1 fx1 where s: "onEnd_import (fst t) (snd t) (inp, fx) = (inp1, fx1)"
    by (cases "onEnd_import (fst t) (snd t) (inp, fx)")
  have fw: "forward inp1 = forward inp"
    using onEnd_import_forward [of "fst t" "snd t" inp fx] s by simp
  have dom: "\<And>k. (map_of inp1 k = None) = (map_of inp k = None)" by (rule forward_dom [OF fw])
  have fx1: "fx1 = fx @ [if map_of inp (path (snd t)) = None
           then ConsoleWarn (path (snd t) @ '' is not exist in metafile'')
           else ConsoleLog (''parent '' @ fst t @ '', child: '' @ path (snd t))]"
    using onEnd_import_log [of "fst t" "snd t" inp fx] s by simp
  show ?case using Cons.IH [of inp1 fx1] s by (simp add: run_tasks_simps fx1 dom)
qed

lemma set_import_tasks:
  "(f, imp) \<in> set (import_tasks inp) \<longleftrightarrow>
     (\<exists>info. (f, info) \<in> set inp \<and> imp \<in> set (imports_list info))"
  by (force simp: import_tasks_def)


lemma onEnd_parents_parents:
  "set (parents_of (fst (onEnd_parents inp)) B) =
     set (parents_of inp B) \<union> {A. map_of inp B \<noteq> None \<and> A \<in> importers inp B}"
  by (auto simp: onEnd_parents_tasks run_tasks_parents set_import_tasks importers_def)


lemma parents_of_member:
  "A \<in> set (parents_of inp B) \<longleftrightarrow>
     (\<exists>target ps. map_of inp B = Some target \<and> parents target = Some ps \<and> A \<in> set ps)"
  by (cases "map_of inp B"; cases "parents (the (map_of inp B))") (auto simp: parents_of_def)

lemma onEnd_state:
  "onEnd (metafile, contents) st =
     (st\<lparr>bundle_bytes := Some contents,
         moduleMeta := Some (metafile\<lparr>inputs := fst (onEnd_parents (inputs metafile))\<rparr>)\<rparr>,
      [ConsoleLog ''esbuild.onEnd''] @ snd (onEnd_parents (inputs metafile))
        @ [ConsoleLogMeta (metafile\<lparr>inputs := fst (onEnd_parents (inputs metafile))\<rparr>)])"
  by (simp add: onEnd_def Let_def split: prod.splits)

text \<open>
  C6.  After \<open>build.onEnd\<close>, for every module \<open>A\<close> of the metafile with an import whose
  path is a module \<open>B\<close> of the metafile, the \<open>parents\<close> set of \<open>B\<close> in the installed
  module graph contains \<open>A\<close>.
\<close>

theorem onEnd_parents_contain_importers:
  assumes "(A, infoA) \<in> set (inputs metafile)"
    and "imp \<in> set (imports_list infoA)"
    and "map_of (inputs metafile) (path imp) \<noteq> None"
  shows "\<exists>mm target ps.
           moduleMeta (fst (onEnd (metafile, contents) st)) = Some mm
         \<and> map_of (inputs mm) (path imp) = Some target
         \<and> parents target = Some ps \<and> A \<in> set ps"
proof -
  let ?inp' = "fst (onEnd_parents (inputs metafile))"
  from assms(1,2) have "A \<in> importers (inputs metafile) (path imp)"
    by (auto simp: importers_def)
  with assms(3) have "A \<in> set (parents_of ?inp' (path imp))"
    by (simp add: onEnd_parents_parents)
  then obtain target ps where "map_of ?inp' (path imp) = Some target"
    "parents target = Some ps" "A \<in> set ps"
    by (auto simp: parents_of_member)
  then show ?thesis by (simp add: onEnd_state)
qed

theorem onEnd_parents_contain_importers_witness:
  "(''client/a.ts'', input_of [(''./b'', ''client/b.ts'')]) \<in> set (inputs \<lparr>inputs = chain_meta\<rparr>)
   \<and> \<lparr>path = ''client/b.ts'', kind = ''import-statement'', external = None,
       original = Some ''./b''\<rparr> \<in> set (imports_list (input_of [(''./b'', ''client/b.ts'')]))
   \<and> map_of (inputs \<lparr>inputs = chain_meta\<rparr>) ''client/b.ts'' \<noteq> None
   \<and> (\<exists>mm target ps.
           moduleMeta (fst (onEnd (\<lparr>inputs = chain_meta\<rparr>, ''bundle'') initial_state)) = Some mm
         \<and> map_of (inputs mm) ''client/b.ts'' = Some target
         \<and> parents target = Some ps \<and> ''client/a.ts'' \<in> set ps)"
proof -
  let ?imp = "\<lparr>path = ''client/b.ts'', kind = ''import-statement'', external = None,
       original = Some ''./b''\<rparr>"
  have h1: "(''client/a.ts'', input_of [(''./b'', ''client/b.ts'')])
      \<in> set (inputs \<lparr>inputs = chain_meta\<rparr>)"
    by (simp add: chain_meta_def)
  have h2: "?imp \<in> set (imports_list (input_of [(''./b'', ''client/b.ts'')]))"
    by (simp add: input_of_def)
  have h3: "map_of (inputs \<lparr>inputs = chain_meta\<rparr>) (path ?imp) \<noteq> None"
    by (simp add: chain_meta_def)
  from onEnd_parents_contain_importers [OF h1 h2 h3, of "''bundle''" initial_state] h1 h2 h3
  show ?thesis by simp
qed



section \<open>The module transformer and the update chain\<close>

lemma upt_shift: "[n ..< Suc (n + k)] = n # [Suc n ..< Suc (n + k)]"
  by (subst upt_rec) simp

lemma replace_first_at_start:
  "take (length pat) xs = pat \<Longrightarrow> replace_first pat rep xs = rep @ drop (length pat) xs"
  by (cases xs) auto

lemma replace_first_prefix: "replace_first pat rep (pat @ s) = rep @ s"
  by (simp add: replace_first_at_start)

lemma stripRoot_path_join: "stripRoot root (path_join root m) = m"
  by (simp add: stripRoot_def path_join_def replace_first_prefix)

lemma transformCode_Inr:
  "transform env p rm ip = Inr rc \<Longrightarrow>
     transformCode env st p rm ip =
       (Inr (if rm then guardedCode (moduleCode (''__hmr'' @ string_of_nat (idx st))
                                       (stripRoot (ROOT env) p) rc)
             else moduleCode (''__hmr'' @ string_of_nat (idx st)) (stripRoot (ROOT env) p) rc),
        st\<lparr>idx := idx st + 1\<rparr>, [SwcTransform p rm ip])"
  by (simp add: transformCode_def Let_def)

lemma transformCode_Inl:
  "transform env p rm ip = Inl err \<Longrightarrow>
     transformCode env st p rm ip = (Inl err, st, [SwcTransform p rm ip])"
  by (simp add: transformCode_def Let_def)

lemma sent_append [simp]: "sent (xs @ ys) = sent xs @ sent ys"
  by (simp add: sent_def)

lemma sent_Nil [simp]: "sent [] = []"
  by (simp add: sent_def)

lemma sent_Cons [simp]: "sent (e # fx) = sent_of e @ sent fx"
  by (simp add: sent_def)

lemma sent_sendToClients [simp]:
  "sent (sendToClients st m) = map (\<lambda>c. (c, m)) (clients st)"
  by (simp add: sendToClients_def sent_def o_def)

lemma sent_getImportPaths [simp]: "sent (snd (getImportPaths mm m)) = []"
  by (simp add: getImportPaths_def getModule_def split: option.splits)

lemma to_all_Cons: "to_all cs (m # ms) = map (\<lambda>c. (c, m)) cs @ to_all cs ms"
  by (simp add: to_all_def)

lemma to_all_Nil: "to_all cs [] = []"
  by (simp add: to_all_def)

text \<open>The chain, step by step.\<close>

lemma update_chain_ok_step:
  assumes "moduleMeta st = Some mm" and "transform_ok env mm m"
  shows "update_chain env X (m # ms) st =
     (case update_chain env X ms (st\<lparr>idx := idx st + 1\<rparr>) of (r, st2, fx3) \<Rightarrow>
        (r, st2,
         snd (getImportPaths mm m)
         @ [SwcTransform (path_join (ROOT env) m) True (fst (getImportPaths mm m))]
         @ sendToClients st (hot_update env mm X (idx st, m)) @ fx3))"
proof -
  obtain ip fx0 where g: "getImportPaths mm m = (ip, fx0)"
    by (cases "getImportPaths mm m")
  from assms(2) g obtain rc where
    rc: "transform env (path_join (ROOT env) m) True ip = Inr rc"
    by (auto simp: transform_ok_def split: sum.splits)
  have s: "sendToClients (st\<lparr>idx := idx st + 1\<rparr>) msg = sendToClients st msg" for msg
    by (simp add: sendToClients_def)
  obtain r st2 fx3 where c: "update_chain env X ms (st\<lparr>idx := idx st + 1\<rparr>) = (r, st2, fx3)"
    by (cases "update_chain env X ms (st\<lparr>idx := idx st + 1\<rparr>)")
  have h: "hot_update env mm X (idx st, m) =
      Update (guardedCode (moduleCode (''__hmr'' @ string_of_nat (idx st)) m rc)) X"
    using g rc by (simp add: hot_update_def)
  show ?thesis
    unfolding update_chain.simps assms(1) option.case g prod.case fst_conv snd_conv
      transformCode_Inr [OF rc] sum.case c s h stripRoot_path_join
    by simp
qed

lemma update_chain_fail_step:
  assumes "moduleMeta st = Some mm" and "\<not> transform_ok env mm m"
  shows "\<exists>err. update_chain env X (m # ms) st =
     (Some err, st,
      snd (getImportPaths mm m)
      @ [SwcTransform (path_join (ROOT env) m) True (fst (getImportPaths mm m))])"
proof -
  obtain ip fx0 where g: "getImportPaths mm m = (ip, fx0)"
    by (cases "getImportPaths mm m")
  from assms(2) g obtain err where
    e: "transform env (path_join (ROOT env) m) True ip = Inl err"
    by (auto simp: transform_ok_def split: sum.splits)
  show ?thesis
    unfolding update_chain.simps assms(1) option.case g prod.case fst_conv snd_conv
      transformCode_Inl [OF e] sum.case
    by simp
qed

lemma update_chain_sent:
  assumes "moduleMeta st = Some mm"
  shows "sent (snd (snd (update_chain env X ms st))) =
           to_all (clients st)
             (map (hot_update env mm X)
                (zip [idx st ..< idx st + length (takeWhile (transform_ok env mm) ms)]
                     (takeWhile (transform_ok env mm) ms)))"
  using assms
proof (induction ms arbitrary: st)
  case Nil
  show ?case by (simp add: to_all_Nil)
next
  case (Cons m ms)
  show ?case
  proof (cases "transform_ok env mm m")
    case True
    let ?st1 = "st\<lparr>idx := idx st + 1\<rparr>"
    let ?oks = "takeWhile (transform_ok env mm) ms"
    have mm1: "moduleMeta ?st1 = Some mm" using Cons.prems by simp
    have upt: "[idx st ..< Suc (idx st + length ?oks)]
        = idx st # [Suc (idx st) ..< Suc (idx st + length ?oks)]"
      by (rule upt_shift)
    obtain r st2 fx3 where c: "update_chain env X ms ?st1 = (r, st2, fx3)"
      by (cases "update_chain env X ms ?st1")
    have "sent fx3 = to_all (clients ?st1)
             (map (hot_update env mm X) (zip [idx ?st1 ..< idx ?st1 + length ?oks] ?oks))"
      using Cons.IH [OF mm1] c by simp
    then show ?thesis
      using True c
      by (simp add: update_chain_ok_step [OF Cons.prems True] to_all_Cons upt
          del: upt_Suc)
  next
    case False
    from update_chain_fail_step [OF Cons.prems False, of X ms]
    show ?thesis using False by (auto simp: to_all_Nil)
  qed
qed

lemma update_chain_state:
  assumes "moduleMeta st = Some mm"
  shows "fst (snd (update_chain env X ms st)) =
           st\<lparr>idx := idx st + length (takeWhile (transform_ok env mm) ms)\<rparr>"
  using assms
proof (induction ms arbitrary: st)
  case Nil
  show ?case by simp
next
  case (Cons m ms)
  show ?case
  proof (cases "transform_ok env mm m")
    case True
    let ?st1 = "st\<lparr>idx := idx st + 1\<rparr>"
    have mm1: "moduleMeta ?st1 = Some mm" using Cons.prems by simp
    obtain r st2 fx3 where c: "update_chain env X ms ?st1 = (r, st2, fx3)"
      by (cases "update_chain env X ms ?st1")
    show ?thesis
      using Cons.IH [OF mm1] c True
      by (simp add: update_chain_ok_step [OF Cons.prems True])
  next
    case False
    from update_chain_fail_step [OF Cons.prems False, of X ms]
    show ?thesis using False by auto
  qed
qed





lemma sent_console_map:
  "(\<And>t. t \<in> set ts \<Longrightarrow> sent_of (f t) = []) \<Longrightarrow> sent (map f ts) = []"
  by (induction ts) simp_all

lemma sent_onEnd_parents [simp]: "sent (snd (onEnd_parents inp)) = []"
  unfolding onEnd_parents_tasks run_tasks_log
  by (simp, rule sent_console_map) simp












lemma served_state_eq:
  "served_state =
     \<lparr>idx = 3, context_ref = None, bundle_bytes = Some ''bundle'',
      moduleMeta = Some \<lparr>inputs = fst (onEnd_parents chain_meta)\<rparr>, clients = [7]\<rparr>"
  by code_simp

lemma served_state_reachable: "reachable served_state"
proof -
  obtain r st' fx where b: "rebuild ok_env initial_state = (r, st', fx)"
    by (cases "rebuild ok_env initial_state")
  have "reachable st'" by (rule reachable.build [OF reachable.init b])
  then have "reachable (connect 7 st')" by (rule reachable.upgrade)
  with b show ?thesis by (simp add: served_state_def)
qed

text \<open>
  C8.  When the syntax transform succeeds, \<open>transformCode\<close> with \<open>runtimeModule\<close> true
  returns the whole wrapped module code inside \<open>try { ... } catch(error) { ... }\<close>, and
  the catch branch calls \<open>window.location.reload()\<close>; with \<open>runtimeModule\<close> false it
  returns the wrapped module code itself, with nothing around it.
\<close>

theorem transformCode_guarded_when_runtimeModule:
  assumes "transform env file_path runtimeModule importPaths = Inr result_code"
  shows "fst (transformCode env st file_path runtimeModule importPaths) =
     Inr (let code = moduleCode (''__hmr'' @ string_of_nat (idx st))
                       (stripRoot (ROOT env) file_path) result_code
          in if runtimeModule
             then ''try {'' @ [CHR 0x0A] @ ''    '' @ code @ [CHR 0x0A]
                  @ ''  } catch(error) {'' @ [CHR 0x0A]
                  @ ''    alert('HMR Failed');'' @ [CHR 0x0A]
                  @ ''    window.location.reload();'' @ [CHR 0x0A]
                  @ ''  }''
             else code)"
  using assms
  by (simp add: transformCode_def Let_def guardedCode_def try_prefix_def catch_suffix_def)

theorem transformCode_guarded_when_runtimeModule_witness:
  "transform ok_env ''/app/client/c.ts'' True [] = Inr ''/* /app/client/c.ts */''
   \<and> fst (transformCode ok_env served_state ''/app/client/c.ts'' True []) =
       Inr (''try {'' @ [CHR 0x0A] @ ''    ''
            @ moduleCode ''__hmr3'' ''client/c.ts'' ''/* /app/client/c.ts */'' @ [CHR 0x0A]
            @ ''  } catch(error) {'' @ [CHR 0x0A]
            @ ''    alert('HMR Failed');'' @ [CHR 0x0A]
            @ ''    window.location.reload();'' @ [CHR 0x0A]
            @ ''  }'')"
proof -
  have h: "transform ok_env ''/app/client/c.ts'' True [] = Inr ''/* /app/client/c.ts */''"
    by (simp add: ok_env_def)
  have "string_of_nat 3 = ''3''" by code_simp
  then have n: "string_of_nat (idx served_state) = ''3''"
    by (simp add: served_state_eq)
  have f: "stripRoot (ROOT ok_env) ''/app/client/c.ts'' = ''client/c.ts''"
    by (simp add: ok_env_def stripRoot_def)
  from transformCode_guarded_when_runtimeModule [OF h, of served_state] h n f
  show ?thesis by (simp add: Let_def)
qed

text \<open>
  C10.  With no connected client the handler does nothing but print the console line of
  an accepted change event: no transform, no message, no rebuild, and the shared state
  (bundle, module graph, counter, clients) is returned as it was, so nothing is kept for
  clients that connect later.
\<close>

theorem handler_without_clients:
  assumes "clients st = []"
  shows "handler env st event changedFilePath =
     (None, st,
      if event = ''change'' \<and> endsWith changedFilePath ''.ts''
      then [ConsoleLog (''file changed: '' @ event)] else [])"
  using assms by (simp add: handler_def Let_def)

theorem handler_without_clients_witness:
  "clients (fst (snd (rebuild ok_env initial_state))) = []
   \<and> handler ok_env (fst (snd (rebuild ok_env initial_state))) ''change'' ''/app/client/c.ts'' =
       (None, fst (snd (rebuild ok_env initial_state)), [ConsoleLog ''file changed: change''])"
proof -
  have h: "clients (fst (snd (rebuild ok_env initial_state))) = []"
    by code_simp
  have e: "endsWith ''/app/client/c.ts'' ''.ts''" by (simp add: endsWith_def)
  from handler_without_clients [OF h, of ok_env "''change''" "''/app/client/c.ts''"] h e
  show ?thesis by simp
qed








text \<open>
  C5 (the code at the failing input).  A change of \<open>client/c.ts\<close> in the chain: the
  second and third update carry the code that registers \<open>client/b.ts\<close> and
  \<open>client/a.ts\<close> in their body, and \<open>client/c.ts\<close> in their id.
\<close>

theorem handler_ancestor_update_carries_changed_id:
  "sent (snd (snd (handler ok_env served_state ''change'' ''/app/client/c.ts''))) =
       [(7, Update (guardedCode (moduleCode ''__hmr3'' ''client/c.ts''
                      ''/* /app/client/c.ts */'')) ''client/c.ts''),
        (7, Update (guardedCode (moduleCode ''__hmr4'' ''client/b.ts''
                      ''/* /app/client/b.ts */'')) ''client/c.ts''),
        (7, Update (guardedCode (moduleCode ''__hmr5'' ''client/a.ts''
                      ''/* /app/client/a.ts */'')) ''client/c.ts'')]"
  by code_simp

text \<open>The ids of the three messages, read off the evaluation above.\<close>

theorem handler_ancestor_update_carries_changed_id_witness:
  "map (\<lambda>cm. id_field (snd cm))
     (sent (snd (snd (handler ok_env served_state ''change'' ''/app/client/c.ts'')))) =
       [''client/c.ts'', ''client/c.ts'', ''client/c.ts'']"
  using handler_ancestor_update_carries_changed_id by simp




section \<open>The build context of the shared state\<close>

text \<open>
  No step of the process assigns \<open>sharedState.context\<close>: it is null in every state the
  server can reach, the \<open>catch\<close> of the chain stops at the dereference, and no reload
  message is ever sent.
\<close>

lemma transformCode_context [simp]:
  "context_ref (fst (snd (transformCode env st p rm ip))) = context_ref st"
  by (simp add: transformCode_def Let_def split: sum.splits)

lemma onLoad_all_context [simp]:
  "context_ref (fst (snd (onLoad_all env ps st))) = context_ref st"
proof (induction ps arbitrary: st)
  case Nil
  show ?case by simp
next
  case (Cons p ps)
  obtain res st1 fx1 where t: "transformCode env st p False [] = (res, st1, fx1)"
    by (cases "transformCode env st p False []")
  obtain ok st2 fx2 where l: "onLoad_all env ps st1 = (ok, st2, fx2)"
    by (cases "onLoad_all env ps st1")
  have "context_ref st1 = context_ref st"
    using transformCode_context [of env st p False "[]"] t by simp
  moreover have "context_ref st2 = context_ref st1" using Cons.IH [of st1] l by simp
  ultimately show ?case using t l by simp
qed

lemma onEnd_context [simp]: "context_ref (fst (onEnd result st)) = context_ref st"
  by (cases result) (simp add: onEnd_state)

lemma rebuild_context [simp]: "context_ref (fst (snd (rebuild env st))) = context_ref st"
proof -
  obtain ok st1 fx1 where l: "onLoad_all env (rebuild_loads env) st = (ok, st1, fx1)"
    by (cases "onLoad_all env (rebuild_loads env) st")
  have c1: "context_ref st1 = context_ref st"
    using onLoad_all_context [of env "rebuild_loads env" st] l by simp
  show ?thesis
  proof (cases "if ok then rebuild_result env else None")
    case None
    with l c1 show ?thesis by (simp add: rebuild_def)
  next
    case (Some result)
    obtain st2 fx2 where e: "onEnd result st1 = (st2, fx2)" by (cases "onEnd result st1")
    have "context_ref st2 = context_ref st1" using onEnd_context [of result st1] e by simp
    with l c1 Some e show ?thesis by (simp add: rebuild_def)
  qed
qed

lemma update_chain_context [simp]:
  "context_ref (fst (snd (update_chain env X ms st))) = context_ref st"
proof (cases "moduleMeta st")
  case None
  then show ?thesis by (cases ms) (simp_all add: update_chain.simps(2))
next
  case (Some mm)
  then show ?thesis by (simp add: update_chain_state)
qed

lemma on_transform_error_context [simp]:
  "context_ref (fst (snd (on_transform_error env st err))) = context_ref st"
proof (cases "context_ref st")
  case None
  then show ?thesis by (simp add: on_transform_error_def)
next
  case (Some ctx)
  obtain r st1 fx1 where b: "rebuild env st = (r, st1, fx1)" by (cases "rebuild env st")
  have "context_ref st1 = context_ref st" using rebuild_context [of env st] b by simp
  with Some b show ?thesis by (cases r) (simp_all add: on_transform_error_def)
qed

lemma handler_context [simp]:
  "context_ref (fst (snd (handler env st ev p))) = context_ref st"
proof -
  have chain: "context_ref (fst (snd
      (case update_chain env X ms st of
         (None, st1, fx3) \<Rightarrow> (None, st1, fx @ fx3)
       | (Some err, st1, fx3) \<Rightarrow>
           (case on_transform_error env st1 err of (r, st2, fx4) \<Rightarrow>
             (r, st2, fx @ fx3 @ fx4))))) = context_ref st" for X ms fx
  proof -
    obtain r st1 fx3 where c: "update_chain env X ms st = (r, st1, fx3)"
      by (cases "update_chain env X ms st")
    have c1: "context_ref st1 = context_ref st"
      using update_chain_context [of env X ms st] c by simp
    show ?thesis
    proof (cases r)
      case None
      with c c1 show ?thesis by simp
    next
      case (Some err)
      obtain r' st2 fx4 where e: "on_transform_error env st1 err = (r', st2, fx4)"
        by (cases "on_transform_error env st1 err")
      have "context_ref st2 = context_ref st1"
        using on_transform_error_context [of env st1 err] e by simp
      with Some c c1 e show ?thesis by simp
    qed
  qed
  show ?thesis
    unfolding handler_def Let_def
    by (simp add: chain split: option.splits)
qed

lemma reachable_context_null: "reachable st \<Longrightarrow> context_ref st = None"
proof (induction rule: reachable.induct)
  case init
  show ?case by (simp add: initial_state_def)
next
  case (build st env r st' fx)
  with rebuild_context [of env st] show ?case by simp
next
  case (upgrade st c)
  then show ?case by (simp add: connect_def)
next
  case (event st env ev p r st' fx)
  with handler_context [of env st ev p] show ?case by simp
qed

lemma on_transform_error_without_context:
  "context_ref st = None \<Longrightarrow>
     on_transform_error env st err =
       (Some (TypeError ''Cannot read properties of null (reading 'rebuild')''), st,
        [ConsoleError ''[HMR] Transform error''])"
  by (simp add: on_transform_error_def)


lemma set_to_all: "set (to_all cs ms) = set cs \<times> set ms"
  by (auto simp: to_all_def)

lemma handler_reachable_no_reload:
  assumes "reachable st"
  shows "(c, Reload) \<notin> set (sent (snd (snd (handler env st ev p))))"
proof -
  have ctx: "context_ref st = None" using assms by (rule reachable_context_null)
  have chain: "(c, Reload) \<notin> set (sent (snd (snd
      (case update_chain env X ms st of
         (None, st1, fx3) \<Rightarrow> (None, st1, fx @ fx3)
       | (Some err, st1, fx3) \<Rightarrow>
           (case on_transform_error env st1 err of (r, st2, fx4) \<Rightarrow>
             (r, st2, fx @ fx3 @ fx4))))))"
    if mm: "moduleMeta st = Some mm" and fx: "sent fx = []" for X ms fx mm
  proof -
    obtain r st1 fx3 where u: "update_chain env X ms st = (r, st1, fx3)"
      by (cases "update_chain env X ms st")
    have c1: "context_ref st1 = None"
      using update_chain_context [of env X ms st] u ctx by simp
    have "sent fx3 = to_all (clients st)
             (map (hot_update env mm X)
                (zip [idx st ..< idx st + length (takeWhile (transform_ok env mm) ms)]
                     (takeWhile (transform_ok env mm) ms)))"
      using update_chain_sent [OF mm, of env X ms] u by simp
    then have s3: "(c, Reload) \<notin> set (sent fx3)"
      by (auto simp: set_to_all hot_update_def)
    show ?thesis
    proof (cases r)
      case None
      with u s3 fx show ?thesis by simp
    next
      case (Some err)
      with u s3 fx show ?thesis
        by (simp add: on_transform_error_without_context [OF c1])
    qed
  qed
  show ?thesis
    unfolding handler_def Let_def
    by (auto simp: chain split: option.splits)
qed

end
